theory Spec2Isabelle
  imports
    Main
    "HOL-Library.Word"
    "HOL-Library.Multiset"
    "HOL-Library.List_Lexorder"
begin

section \<open>The geth EVM wrapper of x/evm/vm/geth/geth.go\<close>

subsection \<open>Addresses and their byte order\<close>

text \<open>
  \<^verbatim>\<open>common.Address\<close> is an array of 20 bytes; \<^verbatim>\<open>Bytes()\<close> returns them as a
  slice. An address is the list of its bytes, most significant first.
\<close>

type_synonym byte = "8 word"

type_synonym address = "byte list"

definition Bytes :: "address \<Rightarrow> byte list" where
  "Bytes a = a"

text \<open>
  \<^verbatim>\<open>common.BytesToAddress\<close> of go-ethereum: the last 20 bytes of the argument,
  padded with zero bytes on the left.
\<close>

definition BytesToAddress :: "byte list \<Rightarrow> address" where
  "BytesToAddress b =
     (if length b > 20 then drop (length b - 20) b
      else replicate (20 - length b) 0 @ b)"

text \<open>
  \<^verbatim>\<open>bytes.Compare(a, b)\<close> of the Go standard library: \<open>-1\<close>, \<open>0\<close> or \<open>1\<close> as
  \<open>a\<close> is lexicographically below, equal to or above \<open>b\<close>, bytes compared unsigned.
\<close>

fun bytes_Compare :: "byte list \<Rightarrow> byte list \<Rightarrow> int" where
  "bytes_Compare [] [] = 0"
| "bytes_Compare [] (y # ys) = - 1"
| "bytes_Compare (x # xs) [] = 1"
| "bytes_Compare (x # xs) (y # ys) =
     (if x < y then - 1 else if y < x then 1 else bytes_Compare xs ys)"

subsection \<open>Stable sorting of a slice\<close>

text \<open>
  \<^verbatim>\<open>sort.SliceStable(x, less)\<close> of the Go standard library sorts \<open>x\<close> by \<open>less\<close>
  and keeps elements that compare equal in their original order. The library
  runs an insertion sort on blocks of at most 20 elements and merges the
  blocks stably; the model is that insertion sort over the whole slice:

  \<^verbatim>\<open>
  for i := a + 1; i < b; i++ {
      for j := i; j > a && data.Less(j, j-1); j-- {
          data.Swap(j, j-1)
      }
  }
  \<close>

  \<open>insertion_step lessf x ps\<close> is the inner loop, for \<open>lessf\<close> the argument
  \<^verbatim>\<open>less\<close>: \<open>ps\<close> is the sorted prefix \<open>data[a..i-1]\<close> read from right to
  left, and \<open>x = data[i]\<close> moves left while it is less than its left neighbour.
\<close>

fun insertion_step :: "('a \<Rightarrow> 'a \<Rightarrow> bool) \<Rightarrow> 'a \<Rightarrow> 'a list \<Rightarrow> 'a list" where
  "insertion_step lessf x [] = [x]"
| "insertion_step lessf x (p # ps) =
     (if lessf x p then p # insertion_step lessf x ps else x # p # ps)"

definition SliceStable :: "('a \<Rightarrow> 'a \<Rightarrow> bool) \<Rightarrow> 'a list \<Rightarrow> 'a list" where
  "SliceStable lessf xs = rev (foldl (\<lambda>ps x. insertion_step lessf x ps) [] xs)"

subsection \<open>Contracts, contexts and the base VM\<close>

text \<open>
  A \<^verbatim>\<open>vm.PrecompiledContract\<close> is an interface value: \<^verbatim>\<open>Address()\<close> is the
  address the contract reports for itself, \<open>native\<close> names the implementation
  behind \<^verbatim>\<open>RequiredGas\<close> and \<^verbatim>\<open>Run\<close>. An interface value may be nil: \<open>None\<close>.
\<close>

record PrecompiledContract =
  Address :: address
  native :: string

type_synonym contract = "PrecompiledContract option"

text \<open>\<^verbatim>\<open>evm.PrecompiledContracts\<close> is \<^verbatim>\<open>map[common.Address]vm.PrecompiledContract\<close>.\<close>

type_synonym PrecompiledContracts = "address \<rightharpoonup> contract"

datatype panic = NilPointerDereference

record BlockContext =
  Coinbase :: address
  GasLimit :: "64 word"
  BlockNumber :: int
  Time :: int
  Difficulty :: int
  BaseFee :: int
  Random :: "byte list option"

record TxContext =
  Origin :: address
  GasPrice :: int

text \<open>
  The embedded \<^verbatim>\<open>*vm.EVM\<close> of go-ethereum, as far as the wrapper reads it. The
  state database \<open>'db\<close>, the chain configuration \<open>'cc\<close> and the interpreter
  configuration \<open>'vc\<close> are opaque to the wrapper.
\<close>

record ('db, 'cc, 'vc) vm_EVM =
  vm_Context :: BlockContext
  vm_TxContext :: TxContext
  vm_StateDB :: 'db
  vm_chainConfig :: 'cc
  vm_Config :: 'vc

text \<open>
  Modelled from the spec: \<^verbatim>\<open>vm.NewEVM\<close> belongs to go-ethereum and is not part of
  the sources; the base VM keeps the contexts and configurations it is
  constructed from, unchanged.
\<close>

definition vm_NewEVM ::
  "BlockContext \<Rightarrow> TxContext \<Rightarrow> 'db \<Rightarrow> 'cc \<Rightarrow> 'vc \<Rightarrow> ('db, 'cc, 'vc) vm_EVM" where
  "vm_NewEVM blockCtx txCtx stateDB chainConfig config =
     \<lparr>vm_Context = blockCtx, vm_TxContext = txCtx, vm_StateDB = stateDB,
      vm_chainConfig = chainConfig, vm_Config = config\<rparr>"

text \<open>
  The functions of go-ethereum that \<^verbatim>\<open>NewEVM\<close> calls are parameters of the
  model: \<^verbatim>\<open>chainConfig.Rules(number, isMerge)\<close>, \<^verbatim>\<open>vm.DefaultPrecompiles(rules)\<close> and
  \<^verbatim>\<open>vm.DefaultActivePrecompiles(rules)\<close>, over an opaque type \<open>'r\<close> of
  \<^verbatim>\<open>params.Rules\<close>. What \<^verbatim>\<open>vm.DefaultPrecompiles\<close> returns has the type \<open>'t\<close>:
  the contents of the map where one construction is looked at alone, the
  reference of the map object where constructions share a store.
\<close>

record ('cc, 'r, 't) geth =
  Rules :: "'cc \<Rightarrow> int \<Rightarrow> bool \<Rightarrow> 'r"
  DefaultPrecompiles :: "'r \<Rightarrow> 't"
  DefaultActivePrecompiles :: "'r \<Rightarrow> address list"

subsection \<open>The wrapper\<close>

text \<open>
  The loop \<^verbatim>\<open>for k, v := range customPrecompiles\<close>. A Go map is visited in an
  unspecified order, each key once: the argument is the list of the map's
  entries in the order of the visit, so its keys are distinct. Calling
  \<^verbatim>\<open>v.Address()\<close> on a nil interface value panics.
\<close>

fun range_customPrecompiles ::
  "(address \<times> contract) list \<Rightarrow> PrecompiledContracts \<times> address list \<Rightarrow>
     panic + PrecompiledContracts \<times> address list" where
  "range_customPrecompiles [] (precompiles, activePrecompiles) =
     Inr (precompiles, activePrecompiles)"
| "range_customPrecompiles ((k, v) # kvs) (precompiles, activePrecompiles) =
     (case v of
        None \<Rightarrow> Inl NilPointerDereference
      | Some c \<Rightarrow>
          range_customPrecompiles kvs
            (precompiles(k \<mapsto> v), activePrecompiles @ [Address c]))"

record ('db, 'cc, 'vc) EVM =
  EVM :: "('db, 'cc, 'vc) vm_EVM"
  precompiles :: PrecompiledContracts
  activePrecompiles :: "address list"

definition address_less :: "address \<Rightarrow> address \<Rightarrow> bool" where
  "address_less a b \<longleftrightarrow> bytes_Compare (Bytes a) (Bytes b) < 0"

definition NewEVM ::
  "('cc, 'r, PrecompiledContracts) geth \<Rightarrow> 'sdk \<Rightarrow> BlockContext \<Rightarrow> TxContext \<Rightarrow> 'db \<Rightarrow> 'cc \<Rightarrow>
   'vc \<Rightarrow> ('sdk \<Rightarrow> ('db, 'cc, 'vc) vm_EVM \<Rightarrow> (address \<times> contract) list) \<Rightarrow>
   panic + ('db, 'cc, 'vc) EVM" where
  "NewEVM G ctx blockCtx txCtx stateDB chainConfig config getPrecompilesExtended =
     (let newEvm = vm_NewEVM blockCtx txCtx stateDB chainConfig config;
          rules = Rules G chainConfig (BlockNumber blockCtx) (Random blockCtx \<noteq> None);
          precompiles0 = DefaultPrecompiles G rules;
          activePrecompiles0 = DefaultActivePrecompiles G rules;
          customPrecompiles = getPrecompilesExtended ctx newEvm
      in case range_customPrecompiles customPrecompiles (precompiles0, activePrecompiles0) of
           Inl p \<Rightarrow> Inl p
         | Inr (precompiles1, activePrecompiles1) \<Rightarrow>
             Inr \<lparr>EVM = newEvm, precompiles = precompiles1,
                  activePrecompiles = SliceStable address_less activePrecompiles1\<rparr>)"

definition Context :: "('db, 'cc, 'vc) EVM \<Rightarrow> BlockContext" where
  "Context e = vm_Context (EVM e)"

definition TxContext :: "('db, 'cc, 'vc) EVM \<Rightarrow> TxContext" where
  "TxContext e = vm_TxContext (EVM e)"

definition Config :: "('db, 'cc, 'vc) EVM \<Rightarrow> 'vc" where
  "Config e = vm_Config (EVM e)"

text \<open>
  \<^verbatim>\<open>p, found = e.precompiles[addr]\<close>: a missing key gives the zero value, the
  nil interface, and \<open>False\<close>.
\<close>

definition Precompile :: "('db, 'cc, 'vc) EVM \<Rightarrow> address \<Rightarrow> contract \<times> bool" where
  "Precompile e addr =
     (case precompiles e addr of None \<Rightarrow> (None, False) | Some p \<Rightarrow> (p, True))"

definition ActivePrecompiles :: "('db, 'cc, 'vc) EVM \<Rightarrow> 'r \<Rightarrow> address list" where
  "ActivePrecompiles e rules = activePrecompiles e"

subsection \<open>The wrapper over a store of map objects\<close>

text \<open>
  A Go map is a reference to a map object. \<^verbatim>\<open>NewEVM\<close> makes no map of its own:
  \<^verbatim>\<open>precompiles\<close> is the map that \<^verbatim>\<open>vm.DefaultPrecompiles\<close> returned,
  \<^verbatim>\<open>precompiles[k] = v\<close> writes into that object, and the wrapper keeps it. Where
  more than one construction or the identity of a map matters, the map objects
  live in a store, \<^verbatim>\<open>vm.DefaultPrecompiles\<close> gives the reference of the object it
  returns for the rules (the parameter \<open>DefaultPrecompiles\<close> at type \<open>ref\<close>), and
  the provider gives the reference of its map. Addresses are arrays and are
  copied by \<^verbatim>\<open>append\<close>; the list of active addresses is kept as a value.
\<close>

type_synonym ref = nat

type_synonym store = "ref \<Rightarrow> PrecompiledContracts"

text \<open>The assignment \<^verbatim>\<open>m[k] = v\<close> on the map object \<open>r\<close>.\<close>

definition map_assign :: "ref \<Rightarrow> address \<Rightarrow> contract \<Rightarrow> store \<Rightarrow> store" where
  "map_assign r k v s = s(r := (s r)(k \<mapsto> v))"

record ('db, 'cc, 'vc) EVM_ref =
  EVM_r :: "('db, 'cc, 'vc) vm_EVM"
  precompiles_r :: ref
  activePrecompiles_r :: "address list"

text \<open>
  The loop over the map object \<open>x\<close> that the provider returned, writing into
  the map object \<open>p\<close>. \<open>ks\<close> are the keys in the order of the visit; each entry
  is read when it is reached, and a key that is no longer in the map then is
  not produced. The entry is written before \<^verbatim>\<open>v.Address()\<close> is called, so a
  panic on a nil contract leaves the writes made so far in the store.
\<close>

fun range_store ::
  "ref \<Rightarrow> address list \<Rightarrow> ref \<Rightarrow> address list \<Rightarrow> store \<Rightarrow>
     (panic + address list) \<times> store" where
  "range_store x [] p active s = (Inr active, s)"
| "range_store x (k # ks) p active s =
     (case s x k of
        None \<Rightarrow> range_store x ks p active s
      | Some v \<Rightarrow>
          (case v of
             None \<Rightarrow> (Inl NilPointerDereference, map_assign p k v s)
           | Some c \<Rightarrow> range_store x ks p (active @ [Address c]) (map_assign p k v s)))"

definition NewEVM_store ::
  "('cc, 'r, ref) geth \<Rightarrow> 'sdk \<Rightarrow> BlockContext \<Rightarrow> TxContext \<Rightarrow> 'db \<Rightarrow> 'cc \<Rightarrow> 'vc \<Rightarrow>
   ('sdk \<Rightarrow> ('db, 'cc, 'vc) vm_EVM \<Rightarrow> ref) \<Rightarrow> address list \<Rightarrow> store \<Rightarrow>
   (panic + ('db, 'cc, 'vc) EVM_ref) \<times> store" where
  "NewEVM_store G ctx blockCtx txCtx stateDB chainConfig config getPrecompilesExtended ks s =
     (let newEvm = vm_NewEVM blockCtx txCtx stateDB chainConfig config;
          rules = Rules G chainConfig (BlockNumber blockCtx) (Random blockCtx \<noteq> None);
          precompiles0 = DefaultPrecompiles G rules;
          activePrecompiles0 = DefaultActivePrecompiles G rules;
          customPrecompiles = getPrecompilesExtended ctx newEvm
      in case range_store customPrecompiles ks precompiles0 activePrecompiles0 s of
           (Inl e, s1) \<Rightarrow> (Inl e, s1)
         | (Inr activePrecompiles1, s1) \<Rightarrow>
             (Inr \<lparr>EVM_r = newEvm, precompiles_r = precompiles0,
                   activePrecompiles_r = SliceStable address_less activePrecompiles1\<rparr>,
              s1))"

text \<open>
  The operations on a wrapper and the store, each returning its result with
  the wrapper and the store as it leaves them.
\<close>

type_synonym ('db, 'cc, 'vc) state = "('db, 'cc, 'vc) EVM_ref \<times> store"




definition Precompile_store ::
  "address \<Rightarrow> ('db, 'cc, 'vc) state \<Rightarrow> (contract \<times> bool) \<times> ('db, 'cc, 'vc) state" where
  "Precompile_store addr st =
     ((case snd st (precompiles_r (fst st)) addr of
         None \<Rightarrow> (None, False)
       | Some p \<Rightarrow> (p, True)),
      st)"


text \<open>
  The entries of the map object \<open>x\<close> under the keys \<open>ks\<close>, in that order, and
  the base VM as a construction that starts in the store \<open>s\<close> sees it: its
  built-in table for the rules is what the map object holds then.
\<close>

definition entries :: "store \<Rightarrow> ref \<Rightarrow> address list \<Rightarrow> (address \<times> contract) list" where
  "entries s x ks = List.map_filter (\<lambda>k. map_option (Pair k) (s x k)) ks"

definition geth_at ::
  "('cc, 'r, ref) geth \<Rightarrow> store \<Rightarrow> ('cc, 'r, PrecompiledContracts) geth" where
  "geth_at G s =
     \<lparr>Rules = Rules G, DefaultPrecompiles = (\<lambda>rules. s (DefaultPrecompiles G rules)),
      DefaultActivePrecompiles = DefaultActivePrecompiles G\<rparr>"

subsection \<open>Precompile addresses and example inputs\<close>

text \<open>The address \<^verbatim>\<open>0x00...0b\<close> of one significant byte, such as \<^verbatim>\<open>0x01\<close>.\<close>

definition addr :: "byte \<Rightarrow> address" where
  "addr b = BytesToAddress [b]"

text \<open>
  A base VM with one fork: the chain configuration is the fork's block, the
  rules say whether the fork is active and whether the block has randomness.
  \<^verbatim>\<open>ecRecover\<close> at \<^verbatim>\<open>0x01\<close> is always built in, \<^verbatim>\<open>blake2F\<close> at \<^verbatim>\<open>0x09\<close> from the
  fork on.
\<close>

definition ecRecover :: PrecompiledContract where
  "ecRecover = \<lparr>Address = addr 1, native = ''ecrecover''\<rparr>"

definition blake2F :: PrecompiledContract where
  "blake2F = \<lparr>Address = addr 9, native = ''blake2F''\<rparr>"

definition example_geth :: "(int, bool \<times> bool, PrecompiledContracts) geth" where
  "example_geth =
     \<lparr>Rules = (\<lambda>fork number isMerge. (fork \<le> number, isMerge)),
      DefaultPrecompiles = (\<lambda>rules.
        if fst rules then [addr 1 \<mapsto> Some ecRecover, addr 9 \<mapsto> Some blake2F]
        else [addr 1 \<mapsto> Some ecRecover]),
      DefaultActivePrecompiles = (\<lambda>rules.
        if fst rules then [addr 1, addr 9] else [addr 1])\<rparr>"

definition example_blockCtx :: "int \<Rightarrow> byte list option \<Rightarrow> BlockContext" where
  "example_blockCtx number random =
     \<lparr>Coinbase = addr 0, GasLimit = 30000000, BlockNumber = number, Time = 1700000000,
      Difficulty = 0, BaseFee = 7, Random = random\<rparr>"

definition example_txCtx :: TxContext where
  "example_txCtx = \<lparr>Origin = addr 0xAA, GasPrice = 1\<rparr>"

text \<open>Extension contracts, and providers that return a fixed mapping.\<close>

definition bank :: PrecompiledContract where
  "bank = \<lparr>Address = addr 5, native = ''bank''\<rparr>"

definition staking :: PrecompiledContract where
  "staking = \<lparr>Address = addr 7, native = ''staking''\<rparr>"

definition custom_ecRecover :: PrecompiledContract where
  "custom_ecRecover = \<lparr>Address = addr 1, native = ''custom''\<rparr>"

definition misplaced :: PrecompiledContract where
  "misplaced = \<lparr>Address = addr 2, native = ''misplaced''\<rparr>"

definition provider ::
  "(address \<times> contract) list \<Rightarrow> unit \<Rightarrow> (unit, int, unit) vm_EVM \<Rightarrow> (address \<times> contract) list" where
  "provider E ctx evm = E"

definition example_NewEVM ::
  "BlockContext \<Rightarrow> (address \<times> contract) list \<Rightarrow> panic + (unit, int, unit) EVM" where
  "example_NewEVM blockCtx E =
     NewEVM example_geth () blockCtx example_txCtx () 100 () (provider E)"

text \<open>
  The same base VM over a store: the map object 0 is its table before the
  fork, the map object 1 its table from the fork on. The map objects 2, 3 and
  4 are extension mappings: \<^verbatim>\<open>{0x05: bank}\<close>, \<^verbatim>\<open>{0x05: bank, 0x07: staking}\<close>
  and the empty one.
\<close>

definition example_geth_store :: "(int, bool \<times> bool, ref) geth" where
  "example_geth_store =
     \<lparr>Rules = (\<lambda>fork number isMerge. (fork \<le> number, isMerge)),
      DefaultPrecompiles = (\<lambda>rules. if fst rules then 1 else 0),
      DefaultActivePrecompiles = (\<lambda>rules.
        if fst rules then [addr 1, addr 9] else [addr 1])\<rparr>"

definition example_store :: store where
  "example_store =
     (\<lambda>r. Map.empty)
       (0 := [addr 1 \<mapsto> Some ecRecover],
        1 := [addr 1 \<mapsto> Some ecRecover, addr 9 \<mapsto> Some blake2F],
        2 := [addr 5 \<mapsto> Some bank],
        3 := [addr 5 \<mapsto> Some bank, addr 7 \<mapsto> Some staking],
        4 := Map.empty)"

definition provider_ref :: "ref \<Rightarrow> unit \<Rightarrow> (unit, int, unit) vm_EVM \<Rightarrow> ref" where
  "provider_ref x ctx evm = x"

definition example_NewEVM_store ::
  "ref \<Rightarrow> address list \<Rightarrow> store \<Rightarrow> (panic + (unit, int, unit) EVM_ref) \<times> store" where
  "example_NewEVM_store x ks s =
     NewEVM_store example_geth_store () (example_blockCtx 200 None) example_txCtx () 100 ()
       (provider_ref x) ks s"

text \<open>The wrapper that these constructions return, up to its active list.\<close>

definition example_wrapper :: "address list \<Rightarrow> (unit, int, unit) EVM_ref" where
  "example_wrapper active =
     \<lparr>EVM_r = vm_NewEVM (example_blockCtx 200 None) example_txCtx () 100 (),
      precompiles_r = 1, activePrecompiles_r = active\<rparr>"

section \<open>Properties\<close>

subsection \<open>The byte order and the stable sort\<close>

lemma bytes_Compare_less: "bytes_Compare a b < 0 \<longleftrightarrow> a < b"
  by (induction a b rule: bytes_Compare.induct) auto

lemma bytes_Compare_le: "bytes_Compare a b \<le> 0 \<longleftrightarrow> a \<le> b"
  by (induction a b rule: bytes_Compare.induct) auto

lemma address_less_eq: "address_less = (<)"
  by (intro ext) (simp add: address_less_def Bytes_def bytes_Compare_less)

lemma mset_insertion_step: "mset (insertion_step f x ps) = add_mset x (mset ps)"
  by (induction ps) auto

lemma set_insertion_step: "set (insertion_step f x ps) = insert x (set ps)"
  by (induction ps) auto

lemma sorted_insertion_step:
  fixes x :: "'a::linorder"
  shows "sorted_wrt (\<lambda>a b. b \<le> a) ps \<Longrightarrow> sorted_wrt (\<lambda>a b. b \<le> a) (insertion_step (<) x ps)"
  by (induction ps) (auto simp: set_insertion_step)

lemma foldl_insertion_step:
  fixes xs :: "'a::linorder list"
  shows "sorted_wrt (\<lambda>a b. b \<le> a) ps \<Longrightarrow>
     sorted_wrt (\<lambda>a b. b \<le> a) (foldl (\<lambda>ps x. insertion_step (<) x ps) ps xs) \<and>
     mset (foldl (\<lambda>ps x. insertion_step (<) x ps) ps xs) = mset ps + mset xs"
  by (induction xs arbitrary: ps) (simp_all add: sorted_insertion_step mset_insertion_step)

lemma SliceStable_sort:
  fixes xs :: "'a::linorder list"
  shows "SliceStable (<) xs = sort xs"
proof -
  let ?ys = "foldl (\<lambda>ps x. insertion_step (<) x ps) [] xs"
  have "sorted_wrt (\<lambda>a b. b \<le> a) ?ys" and m: "mset ?ys = mset xs"
    using foldl_insertion_step [of "[]" xs] by simp_all
  then have "sorted (rev ?ys)"
    by (simp add: sorted_wrt_rev)
  with m show ?thesis
    unfolding SliceStable_def by (intro properties_for_sort [symmetric]) simp_all
qed

lemma map_add_rev_Cons:
  "pre ++ map_of (rev ((k, v) # E)) = pre(k \<mapsto> v) ++ map_of (rev E)"
proof -
  have "pre ++ map_of (rev ((k, v) # E)) = pre ++ ([k \<mapsto> v] ++ map_of (rev E))"
    by (simp only: rev.simps map_of_append) simp
  also have "\<dots> = (pre ++ [k \<mapsto> v]) ++ map_of (rev E)"
    by (simp only: map_add_assoc)
  finally show ?thesis by simp
qed

lemma range_customPrecompiles_Inr:
  "None \<notin> snd ` set E \<Longrightarrow>
   range_customPrecompiles E (pre, act) =
     Inr (pre ++ map_of (rev E), act @ map Address (List.map_filter snd E))"
proof (induction E arbitrary: pre act)
  case Nil
  then show ?case by simp
next
  case (Cons kv E)
  obtain k v where kv: "kv = (k, v)" by (cases kv)
  with Cons.prems obtain c where v: "v = Some c" by (cases v) auto
  have "None \<notin> snd ` set E" using Cons.prems by auto
  note IH = Cons.IH [OF this, of "pre(k \<mapsto> v)" "act @ [Address c]"]
  have "range_customPrecompiles (kv # E) (pre, act) =
        range_customPrecompiles E (pre(k \<mapsto> v), act @ [Address c])"
    by (simp add: kv v)
  also note IH
  also have "pre(k \<mapsto> v) ++ map_of (rev E) = pre ++ map_of (rev (kv # E))"
    unfolding kv by (rule map_add_rev_Cons [symmetric])
  also have "(act @ [Address c]) @ map Address (List.map_filter snd E) =
             act @ map Address (List.map_filter snd (kv # E))"
    by (simp add: kv v)
  finally show ?case .
qed

lemma range_customPrecompiles_Inl:
  "None \<in> snd ` set E \<Longrightarrow> range_customPrecompiles E (pre, act) = Inl NilPointerDereference"
  by (induction E arbitrary: pre act) (auto split: option.splits)

lemma map_of_rev_distinct:
  "distinct (map fst E) \<Longrightarrow> map_of (rev E) = map_of E"
  by (rule map_of_inject_set [THEN iffD2]) (simp_all add: rev_map [symmetric])

subsection \<open>What construction computes\<close>

lemma NewEVM_Inr:
  assumes "None \<notin> snd ` set (getPrecompilesExtended ctx
             (vm_NewEVM blockCtx txCtx stateDB chainConfig config))"
  shows "NewEVM G ctx blockCtx txCtx stateDB chainConfig config getPrecompilesExtended =
     Inr \<lparr>EVM = vm_NewEVM blockCtx txCtx stateDB chainConfig config,
          precompiles =
            DefaultPrecompiles G
              (Rules G chainConfig (BlockNumber blockCtx) (Random blockCtx \<noteq> None)) ++
            map_of (rev (getPrecompilesExtended ctx
              (vm_NewEVM blockCtx txCtx stateDB chainConfig config))),
          activePrecompiles =
            sort (DefaultActivePrecompiles G
                    (Rules G chainConfig (BlockNumber blockCtx) (Random blockCtx \<noteq> None)) @
                  map Address (List.map_filter snd (getPrecompilesExtended ctx
                    (vm_NewEVM blockCtx txCtx stateDB chainConfig config))))\<rparr>"
  using assms unfolding NewEVM_def Let_def
  by (simp add: range_customPrecompiles_Inr address_less_eq SliceStable_sort)

lemma NewEVM_Inl:
  assumes "None \<in> snd ` set (getPrecompilesExtended ctx
             (vm_NewEVM blockCtx txCtx stateDB chainConfig config))"
  shows "NewEVM G ctx blockCtx txCtx stateDB chainConfig config getPrecompilesExtended =
     Inl NilPointerDereference"
  using assms unfolding NewEVM_def Let_def
  by (simp add: range_customPrecompiles_Inl)

lemma addr_bytes: "addr b = [0, 0, 0, 0, 0, 0, 0, 0, 0, 0, 0, 0, 0, 0, 0, 0, 0, 0, 0, b]"
  by (simp add: addr_def BytesToAddress_def eval_nat_numeral)

lemma addr_less [simp]: "addr a < addr b \<longleftrightarrow> a < b"
  by (simp add: addr_bytes)

lemma addr_le [simp]: "addr a \<le> addr b \<longleftrightarrow> a \<le> b"
  by (auto simp: addr_bytes)

lemma addr_eq [simp]: "addr a = addr b \<longleftrightarrow> a = b"
  by (simp add: addr_bytes)

lemma example_NewEVM_Inr:
  assumes "None \<notin> snd ` set E"
  shows "example_NewEVM blockCtx E =
     Inr \<lparr>EVM = vm_NewEVM blockCtx example_txCtx () 100 (),
          precompiles =
            DefaultPrecompiles example_geth (100 \<le> BlockNumber blockCtx, Random blockCtx \<noteq> None) ++
            map_of (rev E),
          activePrecompiles =
            sort (DefaultActivePrecompiles example_geth
                    (100 \<le> BlockNumber blockCtx, Random blockCtx \<noteq> None) @
                  map Address (List.map_filter snd E))\<rparr>"
  unfolding example_NewEVM_def
  by (subst NewEVM_Inr) (simp_all add: provider_def assms example_geth_def)

lemma sorted_wrt_bytes_Compare:
  "sorted_wrt (\<lambda>a b. bytes_Compare (Bytes a) (Bytes b) \<le> 0) xs \<longleftrightarrow> sorted xs"
  by (simp add: bytes_Compare_le Bytes_def)

lemma mset_map_filter:
  "mset (List.map_filter f xs) = image_mset (the \<circ> f) (filter_mset (\<lambda>x. f x \<noteq> None) (mset xs))"
  by (simp add: List.map_filter_def)

lemma sort_cong_mset: "mset xs = mset ys \<Longrightarrow> sort xs = sort ys"
  by (metis sorted_list_of_multiset_mset)

lemma NewEVM_Inr_iff:
  assumes "NewEVM G ctx blockCtx txCtx stateDB chainConfig config getPrecompilesExtended = Inr e"
    and "E = getPrecompilesExtended ctx (vm_NewEVM blockCtx txCtx stateDB chainConfig config)"
    and "rules = Rules G chainConfig (BlockNumber blockCtx) (Random blockCtx \<noteq> None)"
  shows "None \<notin> snd ` set E"
    and "e = \<lparr>EVM = vm_NewEVM blockCtx txCtx stateDB chainConfig config,
               precompiles = DefaultPrecompiles G rules ++ map_of (rev E),
               activePrecompiles =
                 sort (DefaultActivePrecompiles G rules @ map Address (List.map_filter snd E))\<rparr>"
proof -
  show nonnil: "None \<notin> snd ` set E"
  proof
    assume "None \<in> snd ` set E"
    then have "NewEVM G ctx blockCtx txCtx stateDB chainConfig config getPrecompilesExtended =
        Inl NilPointerDereference"
      unfolding assms(2) by (rule NewEVM_Inl)
    with assms(1) show False by simp
  qed
  then have "NewEVM G ctx blockCtx txCtx stateDB chainConfig config getPrecompilesExtended =
      Inr \<lparr>EVM = vm_NewEVM blockCtx txCtx stateDB chainConfig config,
           precompiles = DefaultPrecompiles G rules ++ map_of (rev E),
           activePrecompiles =
             sort (DefaultActivePrecompiles G rules @ map Address (List.map_filter snd E))\<rparr>"
    unfolding assms(2,3) by (rule NewEVM_Inr)
  with assms(1) show "e = \<lparr>EVM = vm_NewEVM blockCtx txCtx stateDB chainConfig config,
               precompiles = DefaultPrecompiles G rules ++ map_of (rev E),
               activePrecompiles =
                 sort (DefaultActivePrecompiles G rules @ map Address (List.map_filter snd E))\<rparr>"
    by simp
qed

lemma entries_Nil [simp]: "entries s x [] = []"
  by (simp add: entries_def)

lemma entries_Cons:
  "entries s x (k # ks) =
     (case s x k of None \<Rightarrow> entries s x ks | Some v \<Rightarrow> (k, v) # entries s x ks)"
  by (simp add: entries_def split: option.splits)

lemma set_entries: "(k, v) \<in> set (entries s x ks) \<longleftrightarrow> k \<in> set ks \<and> s x k = Some v"
  by (induction ks) (auto simp: entries_Cons split: option.splits)

lemma entries_nonnil: "None \<notin> ran (s x) \<Longrightarrow> None \<notin> snd ` set (entries s x ks)"
  by (auto simp: set_entries ran_def)

lemma entries_cong: "s x = t y \<Longrightarrow> entries s x ks = entries t y ks"
  by (simp add: entries_def)

lemma map_of_entries: "map_of (entries s x ks) a = (if a \<in> set ks then s x a else None)"
  by (induction ks) (auto simp: entries_Cons split: option.splits)

lemma entries_rev: "entries s x (rev ks) = rev (entries s x ks)"
  by (simp add: entries_def List.map_filter_def rev_map rev_filter)

lemma map_of_rev_entries: "map_of (rev (entries s x ks)) = s x |` set ks"
  by (rule ext) (simp add: entries_rev [symmetric] map_of_entries restrict_map_def)

lemma map_assign_same:
  assumes "s x k = Some v"
  shows "map_assign p k v s x = s x"
proof (cases "x = p")
  case True
  have "(s p)(k \<mapsto> v) = s p"
    using assms True by (intro fun_upd_idem) simp
  with True show ?thesis by (simp add: map_assign_def)
next
  case False
  then show ?thesis by (simp add: map_assign_def)
qed

lemma map_assign_table: "map_assign p k v s p = (s p)(k \<mapsto> v)"
  by (simp add: map_assign_def)

lemma map_assign_upd: "(map_assign p k v s)(p := pre) = s(p := pre)"
  by (simp add: map_assign_def)

lemma range_store_Inr:
  "range_customPrecompiles (entries s x ks) (s p, active) = Inr (pre, active') \<Longrightarrow>
   range_store x ks p active s = (Inr active', s(p := pre))"
proof (induction ks arbitrary: s active)
  case Nil
  then show ?case by auto
next
  case (Cons k ks)
  show ?case
  proof (cases "s x k")
    case None
    with Cons show ?thesis by (simp add: entries_Cons)
  next
    case (Some v)
    show ?thesis
    proof (cases v)
      case None
      with Some Cons.prems show ?thesis by (simp add: entries_Cons)
    next
      case c: (Some c)
      let ?s = "map_assign p k v s"
      have same: "entries ?s x ks = entries s x ks"
        using Some by (intro entries_cong map_assign_same)
      have "range_customPrecompiles (entries ?s x ks) (?s p, active @ [Address c]) = Inr (pre, active')"
        using Cons.prems unfolding same map_assign_table by (simp add: entries_Cons Some c)
      from Cons.IH [OF this]
      have "range_store x ks p (active @ [Address c]) ?s = (Inr active', s(p := pre))"
        by (simp only: map_assign_upd)
      moreover have "range_store x (k # ks) p active s =
          range_store x ks p (active @ [Address c]) ?s"
        by (simp add: Some c)
      ultimately show ?thesis
        by (simp only:)
    qed
  qed
qed

lemma range_store_Inl:
  "range_customPrecompiles (entries s x ks) (s p, active) = Inl e \<Longrightarrow>
   fst (range_store x ks p active s) = Inl e"
proof (induction ks arbitrary: s active)
  case Nil
  then show ?case by auto
next
  case (Cons k ks)
  show ?case
  proof (cases "s x k")
    case None
    with Cons show ?thesis by (simp add: entries_Cons)
  next
    case (Some v)
    show ?thesis
    proof (cases v)
      case None
      with Some Cons.prems show ?thesis by (simp add: entries_Cons)
    next
      case c: (Some c)
      let ?s = "map_assign p k v s"
      have same: "entries ?s x ks = entries s x ks"
        using Some by (intro entries_cong map_assign_same)
      have "range_customPrecompiles (entries ?s x ks) (?s p, active @ [Address c]) = Inl e"
        using Cons.prems unfolding same map_assign_table by (simp add: entries_Cons Some c)
      from Cons.IH [OF this] show ?thesis
        by (simp add: Some c)
    qed
  qed
qed

lemma NewEVM_store_Inr:
  assumes "None \<notin> snd ` set (entries s (getPrecompilesExtended ctx
             (vm_NewEVM blockCtx txCtx stateDB chainConfig config)) ks)"
  shows "NewEVM_store G ctx blockCtx txCtx stateDB chainConfig config getPrecompilesExtended ks s =
     (Inr \<lparr>EVM_r = vm_NewEVM blockCtx txCtx stateDB chainConfig config,
           precompiles_r = DefaultPrecompiles G
             (Rules G chainConfig (BlockNumber blockCtx) (Random blockCtx \<noteq> None)),
           activePrecompiles_r =
             sort (DefaultActivePrecompiles G
                     (Rules G chainConfig (BlockNumber blockCtx) (Random blockCtx \<noteq> None)) @
                   map Address (List.map_filter snd (entries s (getPrecompilesExtended ctx
                     (vm_NewEVM blockCtx txCtx stateDB chainConfig config)) ks)))\<rparr>,
      s(DefaultPrecompiles G
          (Rules G chainConfig (BlockNumber blockCtx) (Random blockCtx \<noteq> None)) :=
        s (DefaultPrecompiles G
             (Rules G chainConfig (BlockNumber blockCtx) (Random blockCtx \<noteq> None))) ++
        map_of (rev (entries s (getPrecompilesExtended ctx
          (vm_NewEVM blockCtx txCtx stateDB chainConfig config)) ks))))"
proof -
  let ?x = "getPrecompilesExtended ctx (vm_NewEVM blockCtx txCtx stateDB chainConfig config)"
  let ?rules = "Rules G chainConfig (BlockNumber blockCtx) (Random blockCtx \<noteq> None)"
  let ?p = "DefaultPrecompiles G ?rules"
  let ?active = "DefaultActivePrecompiles G ?rules @ map Address (List.map_filter snd (entries s ?x ks))"
  have "range_customPrecompiles (entries s ?x ks) (s ?p, DefaultActivePrecompiles G ?rules) =
      Inr (s ?p ++ map_of (rev (entries s ?x ks)), ?active)"
    using assms by (rule range_customPrecompiles_Inr)
  then have "range_store ?x ks ?p (DefaultActivePrecompiles G ?rules) s =
      (Inr ?active, s(?p := s ?p ++ map_of (rev (entries s ?x ks))))"
    by (rule range_store_Inr)
  then show ?thesis
    unfolding NewEVM_store_def Let_def
    by (simp add: address_less_eq SliceStable_sort del: not_None_eq)
qed

lemma NewEVM_store_Inl:
  assumes "None \<in> snd ` set (entries s (getPrecompilesExtended ctx
             (vm_NewEVM blockCtx txCtx stateDB chainConfig config)) ks)"
  shows "fst (NewEVM_store G ctx blockCtx txCtx stateDB chainConfig config
                getPrecompilesExtended ks s) = Inl NilPointerDereference"
proof -
  let ?x = "getPrecompilesExtended ctx (vm_NewEVM blockCtx txCtx stateDB chainConfig config)"
  let ?rules = "Rules G chainConfig (BlockNumber blockCtx) (Random blockCtx \<noteq> None)"
  let ?p = "DefaultPrecompiles G ?rules"
  have "range_customPrecompiles (entries s ?x ks) (s ?p, DefaultActivePrecompiles G ?rules) =
      Inl NilPointerDereference"
    using assms by (rule range_customPrecompiles_Inl)
  then have "fst (range_store ?x ks ?p (DefaultActivePrecompiles G ?rules) s) =
      Inl NilPointerDereference"
    by (rule range_store_Inl)
  then show ?thesis
    unfolding NewEVM_store_def Let_def
    by (cases "range_store ?x ks ?p (DefaultActivePrecompiles G ?rules) s")
      (simp del: not_None_eq)
qed

text \<open>
  One construction over the store computes what \<open>NewEVM\<close> computes on values,
  for the base VM as the store shows it when construction starts and for the
  entries of the provider's map in the order of the visit.
\<close>

lemma NewEVM_store_refines:
  assumes "x = getPrecompilesExtended ctx (vm_NewEVM blockCtx txCtx stateDB chainConfig config)"
    and "NewEVM_store G ctx blockCtx txCtx stateDB chainConfig config getPrecompilesExtended ks s =
           (r, s')"
  shows "map_sum id
           (\<lambda>e. \<lparr>EVM = EVM_r e, precompiles = s' (precompiles_r e),
                  activePrecompiles = activePrecompiles_r e\<rparr>) r =
         NewEVM (geth_at G s) ctx blockCtx txCtx stateDB chainConfig config
           (\<lambda>ctx evm. entries s x ks)"
proof (cases "None \<in> snd ` set (entries s x ks)")
  case True
  then have "fst (NewEVM_store G ctx blockCtx txCtx stateDB chainConfig config
      getPrecompilesExtended ks s) = Inl NilPointerDereference"
    unfolding assms(1) by (rule NewEVM_store_Inl)
  with assms(2) have "r = Inl NilPointerDereference"
    by simp
  moreover have "NewEVM (geth_at G s) ctx blockCtx txCtx stateDB chainConfig config
      (\<lambda>ctx evm. entries s x ks) = Inl NilPointerDereference"
    using True by (intro NewEVM_Inl) simp
  ultimately show ?thesis by simp
next
  case False
  note store = NewEVM_store_Inr [of s getPrecompilesExtended ctx blockCtx txCtx stateDB
      chainConfig config ks G, folded assms(1), OF False]
  have "NewEVM (geth_at G s) ctx blockCtx txCtx stateDB chainConfig config
      (\<lambda>ctx evm. entries s x ks) =
      Inr \<lparr>EVM = vm_NewEVM blockCtx txCtx stateDB chainConfig config,
           precompiles = DefaultPrecompiles (geth_at G s)
               (Rules (geth_at G s) chainConfig (BlockNumber blockCtx) (Random blockCtx \<noteq> None)) ++
             map_of (rev (entries s x ks)),
           activePrecompiles = sort (DefaultActivePrecompiles (geth_at G s)
               (Rules (geth_at G s) chainConfig (BlockNumber blockCtx) (Random blockCtx \<noteq> None)) @
             map Address (List.map_filter snd (entries s x ks)))\<rparr>"
    using False by (intro NewEVM_Inr) simp
  then show ?thesis
    using assms(2) unfolding store by (auto simp: geth_at_def simp del: not_None_eq)
qed

lemma example_NewEVM_store_eq:
  "example_NewEVM_store x ks s =
     (case range_store x ks 1 [addr 1, addr 9] s of
        (Inl e, s1) \<Rightarrow> (Inl e, s1)
      | (Inr active, s1) \<Rightarrow> (Inr (example_wrapper (sort active)), s1))"
  by (simp add: example_NewEVM_store_def NewEVM_store_def example_geth_store_def
      example_blockCtx_def provider_ref_def example_wrapper_def address_less_eq SliceStable_sort
      split: prod.splits sum.splits)

section \<open>The claims\<close>

text \<open>
  Claim C1, as the code has it. Construction sorts the whole active list by
  the unsigned byte order of the addresses, but not strictly: the list holds
  every address of the built-in active list and one address per extension
  entry, the one its contract reports, each as often as it occurs there. It is
  strictly sorted and free of duplicates exactly when those addresses are
  pairwise distinct.
\<close>

theorem active_list_sorted:
  assumes "E = getPrecompilesExtended ctx (vm_NewEVM blockCtx txCtx stateDB chainConfig config)"
    and "rules = Rules G chainConfig (BlockNumber blockCtx) (Random blockCtx \<noteq> None)"
    and "None \<notin> snd ` set E"
  shows "\<exists>e. NewEVM G ctx blockCtx txCtx stateDB chainConfig config getPrecompilesExtended = Inr e \<and>
             sorted_wrt (\<lambda>a b. bytes_Compare (Bytes a) (Bytes b) \<le> 0) (activePrecompiles e) \<and>
             mset (activePrecompiles e) =
               mset (DefaultActivePrecompiles G rules) + mset (map Address (List.map_filter snd E)) \<and>
             (sorted_wrt address_less (activePrecompiles e) \<and> distinct (activePrecompiles e) \<longleftrightarrow>
                distinct (DefaultActivePrecompiles G rules @ map Address (List.map_filter snd E)))"
proof -
  let ?xs = "DefaultActivePrecompiles G rules @ map Address (List.map_filter snd E)"
  have "None \<notin> snd ` set (getPrecompilesExtended ctx
          (vm_NewEVM blockCtx txCtx stateDB chainConfig config))"
    using assms(1,3) by simp
  then have construct:
    "NewEVM G ctx blockCtx txCtx stateDB chainConfig config getPrecompilesExtended =
       Inr \<lparr>EVM = vm_NewEVM blockCtx txCtx stateDB chainConfig config,
            precompiles = DefaultPrecompiles G rules ++ map_of (rev E),
            activePrecompiles = sort ?xs\<rparr>"
    unfolding assms(1,2) by (rule NewEVM_Inr)
  have "sorted_wrt (\<lambda>a b. bytes_Compare (Bytes a) (Bytes b) \<le> 0) (sort ?xs)"
    unfolding sorted_wrt_bytes_Compare by simp
  moreover have "mset (sort ?xs) =
      mset (DefaultActivePrecompiles G rules) + mset (map Address (List.map_filter snd E))"
    by simp
  moreover have "sorted_wrt address_less (sort ?xs) \<and> distinct (sort ?xs) \<longleftrightarrow> distinct ?xs"
    unfolding address_less_eq by (simp only: strict_sorted_iff sorted_sort distinct_sort) simp
  ultimately show ?thesis
    unfolding construct by simp
qed

theorem active_list_sorted_witness:
  "None \<notin> snd ` set [(addr 7, Some staking), (addr 5, Some bank)] \<and>
   (\<exists>e. example_NewEVM (example_blockCtx 200 None) [(addr 7, Some staking), (addr 5, Some bank)] =
          Inr e \<and>
        sorted_wrt (\<lambda>a b. bytes_Compare (Bytes a) (Bytes b) \<le> 0) (activePrecompiles e) \<and>
        mset (activePrecompiles e) = mset [addr 1, addr 9] + mset [addr 7, addr 5] \<and>
        sorted_wrt address_less (activePrecompiles e) \<and> distinct (activePrecompiles e))"
proof -
  let ?E = "[(addr 7, Some staking), (addr 5, Some bank)]"
  have nonnil: "None \<notin> snd ` set ?E"
    by simp
  have E: "?E = provider ?E () (vm_NewEVM (example_blockCtx 200 None) example_txCtx () 100 ())"
    by (simp add: provider_def)
  have rules: "(True, False) =
      Rules example_geth 100 (BlockNumber (example_blockCtx 200 None))
        (Random (example_blockCtx 200 None) \<noteq> None)"
    by (simp add: example_geth_def example_blockCtx_def)
  have active: "DefaultActivePrecompiles example_geth (True, False) = [addr 1, addr 9]"
    by (simp add: example_geth_def)
  have custom: "map Address (List.map_filter snd ?E) = [addr 7, addr 5]"
    by (simp add: staking_def bank_def)
  have all_distinct: "distinct ([addr 1, addr 9] @ [addr 7, addr 5])"
    by simp
  show ?thesis
    using active_list_sorted [where getPrecompilesExtended = "provider ?E"
        and G = example_geth and txCtx = example_txCtx, OF E rules nonnil] nonnil all_distinct
    unfolding active custom example_NewEVM_def by simp
qed

text \<open>
  Claim C1 fails as stated: when the extension mapping overrides the built-in
  contract at \<^verbatim>\<open>0x01\<close> with a contract of that address, the address is in the
  active list twice.
\<close>

theorem active_list_duplicate_counterexample:
  "map_sum id activePrecompiles
     (example_NewEVM (example_blockCtx 200 None) [(addr 1, Some custom_ecRecover)]) =
     Inr [addr 1, addr 1, addr 9] \<and>
   \<not> distinct [addr 1, addr 1, addr 9] \<and>
   \<not> sorted_wrt address_less [addr 1, addr 1, addr 9] \<and>
   count_list [addr 1, addr 1, addr 9] (addr 1) = 2"
  by (simp add: example_NewEVM_Inr example_geth_def example_blockCtx_def custom_ecRecover_def
      word_le_nat_alt address_less_eq)

text \<open>
  Claim C2. If the extension mapping has an entry for an address that the
  built-in table for the rules also holds, then after construction the lookup
  \<^verbatim>\<open>Precompile\<close> at that address returns the extension's contract and
  \<open>found = True\<close>: the entry written last wins. The mapping has distinct keys,
  as every Go map, and no nil contract, so that construction does not panic.
\<close>

theorem extension_overrides_builtin:
  assumes "E = getPrecompilesExtended ctx (vm_NewEVM blockCtx txCtx stateDB chainConfig config)"
    and "rules = Rules G chainConfig (BlockNumber blockCtx) (Random blockCtx \<noteq> None)"
    and "None \<notin> snd ` set E"
    and "distinct (map fst E)"
    and "(k, v) \<in> set E"
    and "DefaultPrecompiles G rules k = Some b"
  shows "\<exists>e. NewEVM G ctx blockCtx txCtx stateDB chainConfig config getPrecompilesExtended = Inr e \<and>
             Precompile e k = (v, True)"
proof -
  have "None \<notin> snd ` set (getPrecompilesExtended ctx
          (vm_NewEVM blockCtx txCtx stateDB chainConfig config))"
    using assms(1,3) by simp
  moreover have "map_of (rev E) k = Some v"
    using assms(4,5) by (simp add: map_of_rev_distinct)
  ultimately show ?thesis
    unfolding assms(1,2) by (simp add: NewEVM_Inr Precompile_def)
qed

theorem extension_overrides_builtin_witness:
  "None \<notin> snd ` set [(addr 1, Some custom_ecRecover)] \<and>
   distinct (map fst [(addr 1, Some custom_ecRecover)]) \<and>
   (addr 1, Some custom_ecRecover) \<in> set [(addr 1, Some custom_ecRecover)] \<and>
   DefaultPrecompiles example_geth (True, False) (addr 1) = Some (Some ecRecover) \<and>
   Some ecRecover \<noteq> Some custom_ecRecover \<and>
   (\<exists>e. example_NewEVM (example_blockCtx 200 None) [(addr 1, Some custom_ecRecover)] = Inr e \<and>
        Precompile e (addr 1) = (Some custom_ecRecover, True))"
proof -
  let ?E = "[(addr 1, Some custom_ecRecover)]"
  have nonnil: "None \<notin> snd ` set ?E"
    by simp
  have keys: "distinct (map fst ?E)"
    by simp
  have entry: "(addr 1, Some custom_ecRecover) \<in> set ?E"
    by simp
  have E: "?E = provider ?E () (vm_NewEVM (example_blockCtx 200 None) example_txCtx () 100 ())"
    by (simp add: provider_def)
  have rules: "(True, False) =
      Rules example_geth 100 (BlockNumber (example_blockCtx 200 None))
        (Random (example_blockCtx 200 None) \<noteq> None)"
    by (simp add: example_geth_def example_blockCtx_def)
  have builtin: "DefaultPrecompiles example_geth (True, False) (addr 1) = Some (Some ecRecover)"
    by (simp add: example_geth_def word_less_nat_alt)
  have differ: "Some ecRecover \<noteq> Some custom_ecRecover"
    by (simp add: ecRecover_def custom_ecRecover_def)
  show ?thesis
    using extension_overrides_builtin [where getPrecompilesExtended = "provider ?E"
        and G = example_geth and txCtx = example_txCtx, OF E rules nonnil keys entry builtin]
      nonnil keys builtin differ
    unfolding example_NewEVM_def by simp
qed

text \<open>
  Claim C3, as the code has it. Construction writes the extension entries into
  the map object that the base VM returned for the rules. From the same
  contents of that object, the same built-in list and the same extension
  mapping without a nil contract, it yields the same table contents and the
  same active list whatever the order in which the mapping is visited: the
  table is the object's contents overridden by the mapping, in place, and the
  list is the sorted built-in list with the reported addresses.
\<close>

theorem construction_order_independent:
  assumes "x = getPrecompilesExtended ctx (vm_NewEVM blockCtx txCtx stateDB chainConfig config)"
    and "rules = Rules G chainConfig (BlockNumber blockCtx) (Random blockCtx \<noteq> None)"
    and "distinct ks1" and "set ks1 = dom (s x)"
    and "distinct ks2" and "set ks2 = dom (s x)"
    and "None \<notin> ran (s x)"
  shows "NewEVM_store G ctx blockCtx txCtx stateDB chainConfig config getPrecompilesExtended ks1 s =
         NewEVM_store G ctx blockCtx txCtx stateDB chainConfig config getPrecompilesExtended ks2 s \<and>
         (\<exists>e. NewEVM_store G ctx blockCtx txCtx stateDB chainConfig config
                 getPrecompilesExtended ks1 s =
                 (Inr e, s(DefaultPrecompiles G rules := s (DefaultPrecompiles G rules) ++ s x)) \<and>
              precompiles_r e = DefaultPrecompiles G rules \<and>
              activePrecompiles_r e =
                SliceStable address_less
                  (DefaultActivePrecompiles G rules @
                   map Address (List.map_filter snd (entries s x ks1))))"
proof -
  have nonnil: "None \<notin> snd ` set (entries s x ks)" for ks
    using assms(7) by (rule entries_nonnil)
  have table: "map_of (rev (entries s x ks)) = s x" if "set ks = dom (s x)" for ks
    unfolding map_of_rev_entries that by (rule ext) (simp add: restrict_map_def domIff)
  have "mset ks1 = mset ks2"
    using assms(3-6) by (simp add: set_eq_iff_mset_eq_distinct [symmetric])
  then have "mset (entries s x ks1) = mset (entries s x ks2)"
    by (simp add: entries_def mset_map_filter)
  then have "mset (map Address (List.map_filter snd (entries s x ks1))) =
             mset (map Address (List.map_filter snd (entries s x ks2)))"
    by (simp add: mset_map_filter)
  then have list: "sort (DefaultActivePrecompiles G rules @
        map Address (List.map_filter snd (entries s x ks1))) =
      sort (DefaultActivePrecompiles G rules @
        map Address (List.map_filter snd (entries s x ks2)))"
    by (intro sort_cong_mset) simp
  note construct = NewEVM_store_Inr [of s getPrecompilesExtended ctx blockCtx txCtx stateDB
      chainConfig config _ G, folded assms(1,2), OF nonnil]
  show ?thesis
    by (simp add: construct table [OF assms(4)] table [OF assms(6)] list
        address_less_eq SliceStable_sort)
qed

theorem construction_order_independent_witness:
  "distinct [addr 5, addr 7] \<and> set [addr 5, addr 7] = dom (example_store 3) \<and>
   distinct [addr 7, addr 5] \<and> set [addr 7, addr 5] = dom (example_store 3) \<and>
   None \<notin> ran (example_store 3) \<and>
   example_NewEVM_store 3 [addr 5, addr 7] example_store =
     example_NewEVM_store 3 [addr 7, addr 5] example_store \<and>
   example_NewEVM_store 3 [addr 5, addr 7] example_store =
     (Inr (example_wrapper [addr 1, addr 5, addr 7, addr 9]),
      example_store(1 := example_store 1 ++ example_store 3))"
proof -
  have x: "3 = provider_ref 3 () (vm_NewEVM (example_blockCtx 200 None) example_txCtx () (100::int) ())"
    by (simp add: provider_ref_def)
  have keys: "distinct [addr 5, addr 7]" "set [addr 5, addr 7] = dom (example_store 3)"
      "distinct [addr 7, addr 5]" "set [addr 7, addr 5] = dom (example_store 3)"
    by (auto simp: example_store_def)
  have nonnil: "None \<notin> ran (example_store 3)"
    by (auto simp: example_store_def ran_def split: if_splits)
  have rules: "(True, False) =
      Rules example_geth_store 100 (BlockNumber (example_blockCtx 200 None))
        (Random (example_blockCtx 200 None) \<noteq> None)"
    by (simp add: example_geth_store_def example_blockCtx_def)
  have table: "DefaultPrecompiles example_geth_store (True, False) = 1"
    by (simp add: example_geth_store_def)
  note claim = construction_order_independent [where G = example_geth_store
      and getPrecompilesExtended = "provider_ref 3" and s = example_store
      and txCtx = example_txCtx, OF x rules keys nonnil, unfolded table,
      folded example_NewEVM_store_def]
  have same: "example_NewEVM_store 3 [addr 5, addr 7] example_store =
      example_NewEVM_store 3 [addr 7, addr 5] example_store"
    using claim by (rule conjunct1)
  from claim obtain e where
    "example_NewEVM_store 3 [addr 5, addr 7] example_store =
       (Inr e, example_store(1 := example_store 1 ++ example_store 3))"
    by blast
  moreover have "fst (example_NewEVM_store 3 [addr 5, addr 7] example_store) =
      Inr (example_wrapper [addr 1, addr 5, addr 7, addr 9])"
    by (simp add: example_NewEVM_store_eq example_store_def map_assign_def bank_def staking_def
        word_le_nat_alt)
  ultimately have "example_NewEVM_store 3 [addr 5, addr 7] example_store =
      (Inr (example_wrapper [addr 1, addr 5, addr 7, addr 9]),
       example_store(1 := example_store 1 ++ example_store 3))"
    by simp
  with same keys nonnil show ?thesis
    by blast
qed

text \<open>
  Claim C3 fails as stated: the table is not a function of the rules and the
  extension mapping. Constructed with the empty mapping, the wrapper does not
  find \<^verbatim>\<open>0x05\<close>; constructed with the same inputs after a construction with
  \<^verbatim>\<open>{0x05: bank}\<close>, it finds \<^verbatim>\<open>bank\<close> there, left in the base VM's table.
\<close>

theorem construction_hidden_state_counterexample:
  "example_NewEVM_store 4 [] example_store =
     (Inr (example_wrapper [addr 1, addr 9]), example_store) \<and>
   fst (Precompile_store (addr 5) (example_wrapper [addr 1, addr 9], example_store)) =
     (None, False) \<and>
   example_NewEVM_store 2 [addr 5] example_store =
     (Inr (example_wrapper [addr 1, addr 5, addr 9]),
      map_assign 1 (addr 5) (Some bank) example_store) \<and>
   example_NewEVM_store 4 [] (map_assign 1 (addr 5) (Some bank) example_store) =
     (Inr (example_wrapper [addr 1, addr 9]), map_assign 1 (addr 5) (Some bank) example_store) \<and>
   fst (Precompile_store (addr 5)
          (example_wrapper [addr 1, addr 9], map_assign 1 (addr 5) (Some bank) example_store)) =
     (Some bank, True)"
proof -
  have "example_NewEVM_store 2 [addr 5] example_store =
      (Inr (example_wrapper [addr 1, addr 5, addr 9]),
       map_assign 1 (addr 5) (Some bank) example_store)"
    by (simp add: example_NewEVM_store_eq example_store_def bank_def word_le_nat_alt)
  moreover have "example_NewEVM_store 4 [] s = (Inr (example_wrapper [addr 1, addr 9]), s)" for s
    by (simp add: example_NewEVM_store_eq word_le_nat_alt)
  moreover have "fst (Precompile_store (addr 5) (example_wrapper [addr 1, addr 9], example_store)) =
      (None, False)"
    by (simp add: Precompile_store_def example_wrapper_def example_store_def)
  moreover have "fst (Precompile_store (addr 5)
      (example_wrapper [addr 1, addr 9], map_assign 1 (addr 5) (Some bank) example_store)) =
      (Some bank, True)"
    by (simp add: Precompile_store_def example_wrapper_def map_assign_def)
  ultimately show ?thesis
    by simp
qed

text \<open>
  Claim C4. On a constructed wrapper \<^verbatim>\<open>ActivePrecompiles\<close> returns the list
  built at construction for every rules argument: the argument is ignored.
\<close>

theorem ActivePrecompiles_ignores_rules:
  assumes "NewEVM G ctx blockCtx txCtx stateDB chainConfig config getPrecompilesExtended = Inr e"
    and "E = getPrecompilesExtended ctx (vm_NewEVM blockCtx txCtx stateDB chainConfig config)"
    and "rules = Rules G chainConfig (BlockNumber blockCtx) (Random blockCtx \<noteq> None)"
  shows "ActivePrecompiles e r1 = ActivePrecompiles e r2 \<and>
         ActivePrecompiles e r1 = activePrecompiles e \<and>
         activePrecompiles e =
           SliceStable address_less
             (DefaultActivePrecompiles G rules @ map Address (List.map_filter snd E))"
proof -
  have "None \<notin> snd ` set E"
  proof
    assume "None \<in> snd ` set E"
    then have "NewEVM G ctx blockCtx txCtx stateDB chainConfig config getPrecompilesExtended =
        Inl NilPointerDereference"
      unfolding assms(2) by (rule NewEVM_Inl)
    with assms(1) show False by simp
  qed
  then have "NewEVM G ctx blockCtx txCtx stateDB chainConfig config getPrecompilesExtended =
      Inr \<lparr>EVM = vm_NewEVM blockCtx txCtx stateDB chainConfig config,
           precompiles = DefaultPrecompiles G rules ++ map_of (rev E),
           activePrecompiles =
             sort (DefaultActivePrecompiles G rules @ map Address (List.map_filter snd E))\<rparr>"
    unfolding assms(2,3) by (rule NewEVM_Inr)
  with assms(1) have
    "activePrecompiles e = sort (DefaultActivePrecompiles G rules @ map Address (List.map_filter snd E))"
    by auto
  then show ?thesis
    by (simp add: ActivePrecompiles_def address_less_eq SliceStable_sort)
qed

theorem ActivePrecompiles_ignores_rules_witness:
  "\<exists>e. example_NewEVM (example_blockCtx 200 None) [(addr 5, Some bank)] = Inr e \<and>
       ActivePrecompiles e (False, False) = ActivePrecompiles e (True, True) \<and>
       ActivePrecompiles e (False, False) = [addr 1, addr 5, addr 9] \<and>
       ActivePrecompiles e (False, False) \<noteq> DefaultActivePrecompiles example_geth (False, False)"
proof -
  let ?E = "[(addr 5, Some bank)]"
  let ?e = "\<lparr>EVM = vm_NewEVM (example_blockCtx 200 None) example_txCtx () (100::int) (),
      precompiles = [addr 1 \<mapsto> Some ecRecover, addr 9 \<mapsto> Some blake2F, addr 5 \<mapsto> Some bank],
      activePrecompiles = [addr 1, addr 5, addr 9]\<rparr>"
  have construct: "NewEVM example_geth () (example_blockCtx 200 None) example_txCtx () 100 ()
      (provider ?E) = Inr ?e"
    using example_NewEVM_Inr [of ?E "example_blockCtx 200 None"]
    by (simp add: example_NewEVM_def example_geth_def example_blockCtx_def bank_def
        word_le_nat_alt)
  have sorted: "SliceStable address_less
      (DefaultActivePrecompiles example_geth
         (Rules example_geth 100 (BlockNumber (example_blockCtx 200 None))
            (Random (example_blockCtx 200 None) \<noteq> None)) @
       map Address (List.map_filter snd
         (provider ?E () (vm_NewEVM (example_blockCtx 200 None) example_txCtx () 100 ())))) =
      [addr 1, addr 5, addr 9]"
    by (simp add: address_less_eq SliceStable_sort example_geth_def example_blockCtx_def
        provider_def bank_def word_le_nat_alt)
  have differ: "[addr 1, addr 5, addr 9] \<noteq> DefaultActivePrecompiles example_geth (False, False)"
    by (simp add: example_geth_def)
  note claim = ActivePrecompiles_ignores_rules [OF construct refl refl, of "(False, False)" "(True, True)",
      unfolded sorted]
  have "example_NewEVM (example_blockCtx 200 None) ?E = Inr ?e"
    unfolding example_NewEVM_def by (rule construct)
  moreover have "ActivePrecompiles ?e (False, False) = ActivePrecompiles ?e (True, True)"
    using claim by (rule conjunct1)
  moreover have "ActivePrecompiles ?e (False, False) = [addr 1, addr 5, addr 9]"
    using claim by (elim conjE) simp
  ultimately show ?thesis
    using differ by (intro exI [of _ ?e]) simp
qed

text \<open>
  Claim C5. On a constructed wrapper, \<^verbatim>\<open>Precompile\<close> at an address that the
  merged table does not hold, one that is neither a built-in address for the
  rules nor a key of the extension mapping, returns the nil contract and
  \<open>found = False\<close>. The lookup has no error result: it returns a pair for every
  address, and \<open>found\<close> says whether the address is in the table.
\<close>

theorem Precompile_miss:
  assumes "NewEVM G ctx blockCtx txCtx stateDB chainConfig config getPrecompilesExtended = Inr e"
    and "E = getPrecompilesExtended ctx (vm_NewEVM blockCtx txCtx stateDB chainConfig config)"
    and "rules = Rules G chainConfig (BlockNumber blockCtx) (Random blockCtx \<noteq> None)"
  shows "(precompiles e a = None \<longrightarrow> Precompile e a = (None, False)) \<and>
         (precompiles e a = None \<longleftrightarrow> DefaultPrecompiles G rules a = None \<and> a \<notin> fst ` set E) \<and>
         (snd (Precompile e a) \<longleftrightarrow> a \<in> dom (precompiles e))"
proof -
  have "map_of (rev E) a = None \<longleftrightarrow> a \<notin> fst ` set E"
    by (simp add: map_of_eq_None_iff)
  then have "precompiles e a = None \<longleftrightarrow> DefaultPrecompiles G rules a = None \<and> a \<notin> fst ` set E"
    unfolding NewEVM_Inr_iff(2) [OF assms] by (auto simp: map_add_None)
  then show ?thesis
    by (auto simp: Precompile_def split: option.splits)
qed

theorem Precompile_miss_witness:
  "\<exists>e. example_NewEVM (example_blockCtx 200 None) [(addr 5, Some bank)] = Inr e \<and>
       precompiles e (addr 0xAA) = None \<and>
       Precompile e (addr 0xAA) = (None, False) \<and>
       DefaultPrecompiles example_geth (True, False) (addr 0xAA) = None \<and>
       addr 0xAA \<notin> fst ` set [(addr 5, Some bank)] \<and>
       \<not> snd (Precompile e (addr 0xAA)) \<and> addr 0xAA \<notin> dom (precompiles e)"
proof -
  let ?E = "[(addr 5, Some bank)]"
  let ?e = "\<lparr>EVM = vm_NewEVM (example_blockCtx 200 None) example_txCtx () (100::int) (),
      precompiles = [addr 1 \<mapsto> Some ecRecover, addr 9 \<mapsto> Some blake2F, addr 5 \<mapsto> Some bank],
      activePrecompiles = [addr 1, addr 5, addr 9]\<rparr>"
  have construct: "NewEVM example_geth () (example_blockCtx 200 None) example_txCtx () 100 ()
      (provider ?E) = Inr ?e"
    using example_NewEVM_Inr [of ?E "example_blockCtx 200 None"]
    by (simp add: example_NewEVM_def example_geth_def example_blockCtx_def bank_def
        word_le_nat_alt)
  have miss: "precompiles ?e (addr 0xAA) = None"
    by simp
  have builtin: "DefaultPrecompiles example_geth (True, False) (addr 0xAA) = None"
    by (simp add: example_geth_def)
  have "Precompile ?e (addr 0xAA) = (None, False)"
    using Precompile_miss [OF construct refl refl, of "addr 0xAA"] miss by blast
  with construct miss builtin show ?thesis
    unfolding example_NewEVM_def by (intro exI [of _ ?e]) simp
qed

text \<open>
  Claim C6. When the rules activate exactly the built-in precompiles at
  \<^verbatim>\<open>0x01\<close> and \<^verbatim>\<open>0x09\<close>, listed in either order, and the extension mapping
  is \<^verbatim>\<open>{0x05: extContract}\<close> for a contract of that address, the active list is
  \<^verbatim>\<open>[0x01, 0x05, 0x09]\<close> and the table resolves the three addresses to their
  contracts.
\<close>

theorem scenario_sort_covers_whole_list:
  assumes "getPrecompilesExtended ctx (vm_NewEVM blockCtx txCtx stateDB chainConfig config) =
             [(addr 5, Some extContract)]"
    and "Address extContract = addr 5"
    and "rules = Rules G chainConfig (BlockNumber blockCtx) (Random blockCtx \<noteq> None)"
    and "DefaultPrecompiles G rules = [addr 1 \<mapsto> c1, addr 9 \<mapsto> c9]"
    and "mset (DefaultActivePrecompiles G rules) = {#addr 1, addr 9#}"
  shows "\<exists>e. NewEVM G ctx blockCtx txCtx stateDB chainConfig config getPrecompilesExtended = Inr e \<and>
             activePrecompiles e = [addr 1, addr 5, addr 9] \<and>
             Precompile e (addr 1) = (c1, True) \<and>
             Precompile e (addr 5) = (Some extContract, True) \<and>
             Precompile e (addr 9) = (c9, True)"
proof -
  let ?E = "getPrecompilesExtended ctx (vm_NewEVM blockCtx txCtx stateDB chainConfig config)"
  have "None \<notin> snd ` set ?E"
    unfolding assms(1) by simp
  then have construct:
    "NewEVM G ctx blockCtx txCtx stateDB chainConfig config getPrecompilesExtended =
       Inr \<lparr>EVM = vm_NewEVM blockCtx txCtx stateDB chainConfig config,
            precompiles = DefaultPrecompiles G rules ++ map_of (rev ?E),
            activePrecompiles =
              sort (DefaultActivePrecompiles G rules @ map Address (List.map_filter snd ?E))\<rparr>"
    unfolding assms(3) by (rule NewEVM_Inr)
  have "mset [addr 1, addr 5, addr 9] =
        mset (DefaultActivePrecompiles G rules @ map Address (List.map_filter snd ?E))"
    unfolding assms(1) by (simp add: assms(2,5))
  moreover have "sorted [addr 1, addr 5, addr 9]"
    by (simp add: word_le_nat_alt)
  ultimately have "sort (DefaultActivePrecompiles G rules @ map Address (List.map_filter snd ?E)) =
      [addr 1, addr 5, addr 9]"
    by (rule properties_for_sort)
  then show ?thesis
    unfolding construct by (simp add: assms(1,4) Precompile_def word_le_nat_alt)
qed

theorem scenario_sort_covers_whole_list_witness:
  "provider [(addr 5, Some bank)] () (vm_NewEVM (example_blockCtx 200 None) example_txCtx () (100::int) ()) =
     [(addr 5, Some bank)] \<and>
   Address bank = addr 5 \<and>
   DefaultPrecompiles example_geth (True, False) = [addr 1 \<mapsto> Some ecRecover, addr 9 \<mapsto> Some blake2F] \<and>
   mset (DefaultActivePrecompiles example_geth (True, False)) = {#addr 1, addr 9#} \<and>
   (\<exists>e. example_NewEVM (example_blockCtx 200 None) [(addr 5, Some bank)] = Inr e \<and>
        activePrecompiles e = [addr 1, addr 5, addr 9] \<and>
        Precompile e (addr 1) = (Some ecRecover, True) \<and>
        Precompile e (addr 5) = (Some bank, True) \<and>
        Precompile e (addr 9) = (Some blake2F, True))"
proof -
  have E: "provider [(addr 5, Some bank)] ()
      (vm_NewEVM (example_blockCtx 200 None) example_txCtx () (100::int) ()) = [(addr 5, Some bank)]"
    by (simp add: provider_def)
  have self: "Address bank = addr 5"
    by (simp add: bank_def)
  have rules: "(True, False) =
      Rules example_geth 100 (BlockNumber (example_blockCtx 200 None))
        (Random (example_blockCtx 200 None) \<noteq> None)"
    by (simp add: example_geth_def example_blockCtx_def)
  have table: "DefaultPrecompiles example_geth (True, False) =
      [addr 1 \<mapsto> Some ecRecover, addr 9 \<mapsto> Some blake2F]"
    by (simp add: example_geth_def)
  have active: "mset (DefaultActivePrecompiles example_geth (True, False)) = {#addr 1, addr 9#}"
    by (simp add: example_geth_def)
  show ?thesis
    using scenario_sort_covers_whole_list [where getPrecompilesExtended = "provider [(addr 5, Some bank)]"
        and G = example_geth, OF E self rules table active] E self table active
    unfolding example_NewEVM_def by simp
qed




text \<open>
  Claim C8. Construction derives the rules as
  \<^verbatim>\<open>chainConfig.Rules(blockCtx.BlockNumber, blockCtx.Random != nil)\<close>, whatever
  the extension mapping: the wrapper's table is the map object that the base
  VM returns for exactly these rules, with the visited entries written into
  it, and the active list is the base VM's list for exactly these rules with
  the reported addresses, sorted. Hence, from one store and for one chain
  configuration and one provider's map, two block contexts of the same height
  that both have or both lack randomness give the same table and the same
  active list.
\<close>

theorem rules_from_height_and_randomness:
  assumes "x = getPrecompilesExtended ctx (vm_NewEVM blockCtx txCtx stateDB chainConfig config)"
    and "rules = Rules G chainConfig (BlockNumber blockCtx) (Random blockCtx \<noteq> None)"
    and "None \<notin> snd ` set (entries s x ks)"
  shows "(\<exists>e. NewEVM_store G ctx blockCtx txCtx stateDB chainConfig config
                 getPrecompilesExtended ks s =
                 (Inr e, s(DefaultPrecompiles G rules :=
                            s (DefaultPrecompiles G rules) ++ map_of (rev (entries s x ks)))) \<and>
              EVM_r e = vm_NewEVM blockCtx txCtx stateDB chainConfig config \<and>
              precompiles_r e = DefaultPrecompiles G rules \<and>
              activePrecompiles_r e =
                SliceStable address_less
                  (DefaultActivePrecompiles G rules @
                   map Address (List.map_filter snd (entries s x ks)))) \<and>
         (BlockNumber blockCtx' = BlockNumber blockCtx \<and>
          (Random blockCtx' = None \<longleftrightarrow> Random blockCtx = None) \<and>
          getPrecompilesExtended ctx (vm_NewEVM blockCtx' txCtx stateDB chainConfig config) = x \<longrightarrow>
          map_prod (map_sum id (\<lambda>e. (precompiles_r e, activePrecompiles_r e))) id
            (NewEVM_store G ctx blockCtx' txCtx stateDB chainConfig config
               getPrecompilesExtended ks s) =
          map_prod (map_sum id (\<lambda>e. (precompiles_r e, activePrecompiles_r e))) id
            (NewEVM_store G ctx blockCtx txCtx stateDB chainConfig config
               getPrecompilesExtended ks s))"
proof -
  note construct = NewEVM_store_Inr [of s getPrecompilesExtended ctx blockCtx txCtx stateDB
      chainConfig config ks G, folded assms(1,2), OF assms(3)]
  have first: "\<exists>e. NewEVM_store G ctx blockCtx txCtx stateDB chainConfig config
                 getPrecompilesExtended ks s =
                 (Inr e, s(DefaultPrecompiles G rules :=
                            s (DefaultPrecompiles G rules) ++ map_of (rev (entries s x ks)))) \<and>
              EVM_r e = vm_NewEVM blockCtx txCtx stateDB chainConfig config \<and>
              precompiles_r e = DefaultPrecompiles G rules \<and>
              activePrecompiles_r e =
                SliceStable address_less
                  (DefaultActivePrecompiles G rules @
                   map Address (List.map_filter snd (entries s x ks)))"
    unfolding construct by (simp add: address_less_eq SliceStable_sort)
  have second: "map_prod (map_sum id (\<lambda>e. (precompiles_r e, activePrecompiles_r e))) id
            (NewEVM_store G ctx blockCtx' txCtx stateDB chainConfig config
               getPrecompilesExtended ks s) =
          map_prod (map_sum id (\<lambda>e. (precompiles_r e, activePrecompiles_r e))) id
            (NewEVM_store G ctx blockCtx txCtx stateDB chainConfig config
               getPrecompilesExtended ks s)"
    if "BlockNumber blockCtx' = BlockNumber blockCtx"
      and "Random blockCtx' = None \<longleftrightarrow> Random blockCtx = None"
      and "getPrecompilesExtended ctx (vm_NewEVM blockCtx' txCtx stateDB chainConfig config) = x"
  proof -
    have "(Random blockCtx' \<noteq> None) = (Random blockCtx \<noteq> None)"
      using that(2) by simp
    then show ?thesis
      unfolding NewEVM_store_def Let_def that(1,3) assms(1) [symmetric]
      by (simp split: prod.splits sum.splits del: not_None_eq)
  qed
  show ?thesis
    by (intro conjI impI, rule first, elim conjE, rule second)
qed

theorem rules_from_height_and_randomness_witness:
  "None \<notin> snd ` set (entries example_store 2 [addr 5]) \<and>
   example_NewEVM_store 2 [addr 5] example_store =
     (Inr (example_wrapper [addr 1, addr 5, addr 9]),
      example_store(1 := example_store 1 ++ map_of (rev (entries example_store 2 [addr 5])))) \<and>
   BlockNumber ((example_blockCtx 200 None)\<lparr>Time := 5\<rparr>) = BlockNumber (example_blockCtx 200 None) \<and>
   (Random ((example_blockCtx 200 None)\<lparr>Time := 5\<rparr>) = None \<longleftrightarrow>
      Random (example_blockCtx 200 None) = None) \<and>
   (example_blockCtx 200 None)\<lparr>Time := 5\<rparr> \<noteq> example_blockCtx 200 None \<and>
   map_prod (map_sum id (\<lambda>e. (precompiles_r e, activePrecompiles_r e))) id
     (NewEVM_store example_geth_store () ((example_blockCtx 200 None)\<lparr>Time := 5\<rparr>) example_txCtx
        () 100 () (provider_ref 2) [addr 5] example_store) =
   map_prod (map_sum id (\<lambda>e. (precompiles_r e, activePrecompiles_r e))) id
     (example_NewEVM_store 2 [addr 5] example_store)"
proof -
  let ?b = "example_blockCtx 200 None"
  let ?b' = "(example_blockCtx 200 None)\<lparr>Time := 5\<rparr>"
  have x: "2 = provider_ref 2 () (vm_NewEVM ?b example_txCtx () (100::int) ())"
    by (simp add: provider_ref_def)
  have x': "provider_ref 2 () (vm_NewEVM ?b' example_txCtx () (100::int) ()) = 2"
    by (simp add: provider_ref_def)
  have rules: "(True, False) = Rules example_geth_store 100 (BlockNumber ?b) (Random ?b \<noteq> None)"
    by (simp add: example_geth_store_def example_blockCtx_def)
  have table: "DefaultPrecompiles example_geth_store (True, False) = 1"
    and list: "DefaultActivePrecompiles example_geth_store (True, False) = [addr 1, addr 9]"
    by (simp_all add: example_geth_store_def)
  have visited: "entries example_store 2 [addr 5] = [(addr 5, Some bank)]"
    by (simp add: entries_def example_store_def)
  have nonnil: "None \<notin> snd ` set (entries example_store 2 [addr 5])"
    by (simp add: visited)
  have number: "BlockNumber ?b' = BlockNumber ?b" and random: "Random ?b' = None \<longleftrightarrow> Random ?b = None"
    and differ: "?b' \<noteq> ?b"
    by (simp_all add: example_blockCtx_def)
  note claim = rules_from_height_and_randomness [where G = example_geth_store
      and getPrecompilesExtended = "provider_ref 2" and s = example_store and ks = "[addr 5]"
      and txCtx = example_txCtx and blockCtx' = ?b', OF x rules nonnil,
      unfolded table list, folded example_NewEVM_store_def]
  from claim obtain e where
    e: "example_NewEVM_store 2 [addr 5] example_store =
       (Inr e, example_store(1 := example_store 1 ++ map_of (rev (entries example_store 2 [addr 5]))))"
    and "EVM_r e = vm_NewEVM ?b example_txCtx () 100 ()" and "precompiles_r e = 1"
    and "activePrecompiles_r e =
      SliceStable address_less
        ([addr 1, addr 9] @ map Address (List.map_filter snd (entries example_store 2 [addr 5])))"
    by blast
  then have "e = example_wrapper [addr 1, addr 5, addr 9]"
    by (simp add: example_wrapper_def visited bank_def address_less_eq SliceStable_sort
        word_le_nat_alt)
  with e have "example_NewEVM_store 2 [addr 5] example_store =
     (Inr (example_wrapper [addr 1, addr 5, addr 9]),
      example_store(1 := example_store 1 ++ map_of (rev (entries example_store 2 [addr 5]))))"
    by simp
  moreover from claim number random x' have
    "map_prod (map_sum id (\<lambda>e. (precompiles_r e, activePrecompiles_r e))) id
       (NewEVM_store example_geth_store () ?b' example_txCtx () 100 () (provider_ref 2) [addr 5]
          example_store) =
     map_prod (map_sum id (\<lambda>e. (precompiles_r e, activePrecompiles_r e))) id
       (example_NewEVM_store 2 [addr 5] example_store)"
    by blast
  ultimately show ?thesis
    using nonnil number random differ by blast
qed

text \<open>
  Claim C9, as the code has it. For an entry \<open>(k, v)\<close> of the extension
  mapping whose contract reports an address other than \<open>k\<close>, the lookup at
  \<open>k\<close> returns \<open>v\<close> and the active list holds \<open>v\<close>'s own address; \<open>k\<close> is in
  the active list only when it is a built-in active address or the address
  that some extension contract reports.
\<close>

theorem table_keyed_by_key_list_by_Address:
  assumes "E = getPrecompilesExtended ctx (vm_NewEVM blockCtx txCtx stateDB chainConfig config)"
    and "rules = Rules G chainConfig (BlockNumber blockCtx) (Random blockCtx \<noteq> None)"
    and "None \<notin> snd ` set E"
    and "distinct (map fst E)"
    and "(k, Some c) \<in> set E"
    and "k \<noteq> Address c"
  shows "\<exists>e. NewEVM G ctx blockCtx txCtx stateDB chainConfig config getPrecompilesExtended = Inr e \<and>
             Precompile e k = (Some c, True) \<and>
             Address c \<in> set (activePrecompiles e) \<and>
             (k \<in> set (activePrecompiles e) \<longleftrightarrow>
                k \<in> set (DefaultActivePrecompiles G rules) \<or>
                k \<in> Address ` set (List.map_filter snd E))"
proof -
  have "None \<notin> snd ` set (getPrecompilesExtended ctx
          (vm_NewEVM blockCtx txCtx stateDB chainConfig config))"
    using assms(1,3) by simp
  then have construct:
    "NewEVM G ctx blockCtx txCtx stateDB chainConfig config getPrecompilesExtended =
       Inr \<lparr>EVM = vm_NewEVM blockCtx txCtx stateDB chainConfig config,
            precompiles = DefaultPrecompiles G rules ++ map_of (rev E),
            activePrecompiles =
              sort (DefaultActivePrecompiles G rules @ map Address (List.map_filter snd E))\<rparr>"
    unfolding assms(1,2) by (rule NewEVM_Inr)
  have "map_of (rev E) k = Some (Some c)"
    using assms(4,5) by (simp add: map_of_rev_distinct)
  moreover have "c \<in> set (List.map_filter snd E)"
    using assms(5) by (force simp: List.map_filter_def)
  ultimately show ?thesis
    unfolding construct by (auto simp: Precompile_def)
qed

theorem table_keyed_by_key_list_by_Address_witness:
  "None \<notin> snd ` set [(addr 5, Some misplaced)] \<and>
   distinct (map fst [(addr 5, Some misplaced)]) \<and>
   (addr 5, Some misplaced) \<in> set [(addr 5, Some misplaced)] \<and>
   addr 5 \<noteq> Address misplaced \<and>
   (\<exists>e. example_NewEVM (example_blockCtx 200 None) [(addr 5, Some misplaced)] = Inr e \<and>
        Precompile e (addr 5) = (Some misplaced, True) \<and>
        Address misplaced \<in> set (activePrecompiles e) \<and>
        addr 5 \<notin> set (activePrecompiles e))"
proof -
  let ?E = "[(addr 5, Some misplaced)]"
  have nonnil: "None \<notin> snd ` set ?E"
    by simp
  have keys: "distinct (map fst ?E)"
    by simp
  have entry: "(addr 5, Some misplaced) \<in> set ?E"
    by simp
  have differ: "addr 5 \<noteq> Address misplaced"
    by (simp add: misplaced_def)
  have E: "?E = provider ?E () (vm_NewEVM (example_blockCtx 200 None) example_txCtx () 100 ())"
    by (simp add: provider_def)
  have rules: "(True, False) =
      Rules example_geth 100 (BlockNumber (example_blockCtx 200 None))
        (Random (example_blockCtx 200 None) \<noteq> None)"
    by (simp add: example_geth_def example_blockCtx_def)
  have absent: "addr 5 \<notin> set (DefaultActivePrecompiles example_geth (True, False))"
      "addr 5 \<notin> Address ` set (List.map_filter snd ?E)"
    by (simp_all add: example_geth_def misplaced_def)
  show ?thesis
    using table_keyed_by_key_list_by_Address [where getPrecompilesExtended = "provider ?E"
        and G = example_geth and txCtx = example_txCtx, OF E rules nonnil keys entry differ]
      nonnil keys differ absent
    unfolding example_NewEVM_def by auto
qed

text \<open>
  Claim C9 fails as stated: a contract that reports \<^verbatim>\<open>0x02\<close>, registered under
  the built-in address \<^verbatim>\<open>0x01\<close>, is returned by the lookup at \<^verbatim>\<open>0x01\<close>, and
  \<^verbatim>\<open>0x01\<close> is still in the active list.
\<close>

theorem key_in_active_list_counterexample:
  "addr 1 \<noteq> Address misplaced \<and>
   map_sum id (\<lambda>e. Precompile e (addr 1))
     (example_NewEVM (example_blockCtx 200 None) [(addr 1, Some misplaced)]) =
     Inr (Some misplaced, True) \<and>
   map_sum id activePrecompiles
     (example_NewEVM (example_blockCtx 200 None) [(addr 1, Some misplaced)]) =
     Inr [addr 1, addr 2, addr 9] \<and>
   addr 1 \<in> set [addr 1, addr 2, addr 9]"
  by (simp add: example_NewEVM_Inr example_geth_def example_blockCtx_def misplaced_def
      Precompile_def word_le_nat_alt)

text \<open>
  Claim C10. Merging the extensions removes no built-in address: every address
  of the base VM's active list for the rules is in the wrapper's active list,
  as often as it was there.
\<close>

theorem active_list_keeps_builtin:
  assumes "E = getPrecompilesExtended ctx (vm_NewEVM blockCtx txCtx stateDB chainConfig config)"
    and "rules = Rules G chainConfig (BlockNumber blockCtx) (Random blockCtx \<noteq> None)"
    and "None \<notin> snd ` set E"
  shows "\<exists>e. NewEVM G ctx blockCtx txCtx stateDB chainConfig config getPrecompilesExtended = Inr e \<and>
             set (DefaultActivePrecompiles G rules) \<subseteq> set (activePrecompiles e) \<and>
             mset (DefaultActivePrecompiles G rules) \<subseteq># mset (activePrecompiles e)"
proof -
  have "None \<notin> snd ` set (getPrecompilesExtended ctx
          (vm_NewEVM blockCtx txCtx stateDB chainConfig config))"
    using assms(1,3) by simp
  then show ?thesis
    unfolding assms(2) by (simp add: NewEVM_Inr)
qed

theorem active_list_keeps_builtin_witness:
  "None \<notin> snd ` set [(addr 5, Some bank)] \<and>
   (\<exists>e. example_NewEVM (example_blockCtx 200 None) [(addr 5, Some bank)] = Inr e \<and>
        set [addr 1, addr 9] \<subseteq> set (activePrecompiles e) \<and>
        mset [addr 1, addr 9] \<subseteq># mset (activePrecompiles e))"
proof -
  have nonnil: "None \<notin> snd ` set [(addr 5, Some bank)]"
    by simp
  have E: "[(addr 5, Some bank)] =
      provider [(addr 5, Some bank)] () (vm_NewEVM (example_blockCtx 200 None) example_txCtx () 100 ())"
    by (simp add: provider_def)
  have rules: "(True, False) =
      Rules example_geth 100 (BlockNumber (example_blockCtx 200 None))
        (Random (example_blockCtx 200 None) \<noteq> None)"
    by (simp add: example_geth_def example_blockCtx_def)
  have active: "DefaultActivePrecompiles example_geth (True, False) = [addr 1, addr 9]"
    by (simp add: example_geth_def)
  show ?thesis
    using active_list_keeps_builtin [where getPrecompilesExtended = "provider [(addr 5, Some bank)]"
        and G = example_geth and txCtx = example_txCtx, OF E rules nonnil] nonnil
    unfolding active example_NewEVM_def by simp
qed

end
